theory Spec2Isabelle
  imports Main "HOL-Library.Word"
begin

unbundle bit_operations_syntax

section \<open>JavaScript values, Buffers and exceptions\<close>

text \<open>
  A Node.js \<^verbatim>\<open>Buffer\<close> is a list of bytes. A JavaScript string is a list of
  UTF-16 code units, which is what \<^verbatim>\<open>.length\<close> counts. The values a caller can hand to
  the two setters are the primitives, strings and Buffers.
\<close>

type_synonym byte = "8 word"
type_synonym buffer = "byte list"
type_synonym jsstring = "16 word list"

datatype jsval =
    JUndefined
  | JNull
  | JBoolean bool
  | JNumber int
  | JString jsstring
  | JBuffer buffer

text \<open>
  Exceptions are values. \<open>Error\<close> is \<^verbatim>\<open>throw new Error(msg)\<close> of the class itself,
  \<open>TypeError\<close> is raised by the runtime (a property read on \<^verbatim>\<open>null\<close>, a call of
  something that is not a function), \<open>CryptoError\<close> by the \<^verbatim>\<open>crypto\<close> module,
  \<open>SyntaxError\<close> by \<^verbatim>\<open>JSON.parse\<close> and \<open>SystemError\<close> by \<^verbatim>\<open>fs\<close>.
\<close>

datatype error =
    Error string
  | TypeError string
  | CryptoError string
  | SyntaxError string
  | SystemError string

text \<open>The error classes of the specification, read off the exceptions the code throws.\<close>

fun is_PreconditionError :: "error \<Rightarrow> bool" where
  "is_PreconditionError (Error m) = (m = ''Key is not set.'')"
| "is_PreconditionError _ = False"

fun is_ValidationError :: "error \<Rightarrow> bool" where
  "is_ValidationError (Error m) =
     (m = ''Key must be 64 bytes long.'' \<or> m = ''Password must be a non-empty string.'')"
| "is_ValidationError _ = False"

fun is_DecryptionError :: "error \<Rightarrow> bool" where
  "is_DecryptionError (CryptoError m) = True"
| "is_DecryptionError _ = False"

text \<open>\<^verbatim>\<open>value.length\<close>: a \<open>TypeError\<close> on \<^verbatim>\<open>null\<close> and \<^verbatim>\<open>undefined\<close>,
  \<^verbatim>\<open>undefined\<close> (here \<open>None\<close>) on a boolean or a number.\<close>

fun js_length :: "jsval \<Rightarrow> error + nat option" where
  "js_length JUndefined = Inl (TypeError ''Cannot read properties of undefined'')"
| "js_length JNull = Inl (TypeError ''Cannot read properties of null'')"
| "js_length (JBoolean b) = Inr None"
| "js_length (JNumber n) = Inr None"
| "js_length (JString s) = Inr (Some (length s))"
| "js_length (JBuffer b) = Inr (Some (length b))"

text \<open>\<^verbatim>\<open>value.from("hex")\<close>: \<^verbatim>\<open>from\<close> is a static method of \<^verbatim>\<open>Buffer\<close> and
  \<^verbatim>\<open>Array\<close>; no string, Buffer or primitive has a property of that name, so the
  call is a call of \<^verbatim>\<open>undefined\<close>.\<close>

fun js_call_from :: "jsval \<Rightarrow> jsstring \<Rightarrow> error + buffer" where
  "js_call_from v encoding = Inl (TypeError ''value.from is not a function'')"

text \<open>\<^verbatim>\<open>buf.toString("hex")\<close>: two lowercase hexadecimal digits per byte.\<close>

definition hex_digit :: "nat \<Rightarrow> 16 word" where
  "hex_digit n = (if n < 10 then of_nat (48 + n) else of_nat (87 + n))"

definition toString_hex :: "buffer \<Rightarrow> jsstring" where
  "toString_hex b = concat (map (\<lambda>x. [hex_digit (unat x div 16), hex_digit (unat x mod 16)]) b)"

definition is_hex_char :: "16 word \<Rightarrow> bool" where
  "is_hex_char c = ((48 \<le> unat c \<and> unat c \<le> 57) \<or> (97 \<le> unat c \<and> unat c \<le> 102))"

section \<open>The platform: what the code takes from Node.js\<close>

text \<open>
  The primitives of Node.js that the class calls and that are no code of the repository
  are parameters: the AES-256 block function and its inverse (key, then a 16-byte block),
  SHA-256, the UTF-8 and base64 codecs of \<^verbatim>\<open>Buffer\<close>, and \<^verbatim>\<open>JSON\<close> over a type
  \<open>'v\<close> of values. \<^verbatim>\<open>JSON.stringify\<close> throws, returns \<^verbatim>\<open>undefined\<close> (\<open>None\<close>)
  or returns a text.
\<close>

record 'v node =
  aes256_encrypt :: "buffer \<Rightarrow> buffer \<Rightarrow> buffer"
  aes256_decrypt :: "buffer \<Rightarrow> buffer \<Rightarrow> buffer"
  sha256 :: "buffer \<Rightarrow> buffer"
  utf8_encode :: "jsstring \<Rightarrow> buffer"
  utf8_decode :: "buffer \<Rightarrow> jsstring"
  base64_encode :: "buffer \<Rightarrow> jsstring"
  base64_decode :: "jsstring \<Rightarrow> buffer"
  JSON_stringify :: "'v \<Rightarrow> error + jsstring option"
  JSON_parse :: "jsstring \<Rightarrow> error + 'v"

text \<open>What AES-256 is assumed to be: on a 32-byte key, both directions map 16-byte blocks
  to 16-byte blocks and decryption undoes encryption.\<close>

definition aes_ok :: "'v node \<Rightarrow> bool" where
  "aes_ok lib \<longleftrightarrow>
     (\<forall>k x. length k = 32 \<and> length x = 16 \<longrightarrow>
        length (aes256_encrypt lib k x) = 16 \<and>
        length (aes256_decrypt lib k x) = 16 \<and>
        aes256_decrypt lib k (aes256_encrypt lib k x) = x)"

text \<open>The world outside the instance: the bytes the system's random generator will
  hand out, how many of them have been drawn, the files, and which paths refuse a write.
  What \<^verbatim>\<open>console.error\<close> prints is not modelled.\<close>

record world =
  rng :: "nat \<Rightarrow> byte"
  rng_pos :: nat
  files :: "jsstring \<rightharpoonup> buffer"
  readonly :: "jsstring \<Rightarrow> bool"

definition randomBytes :: "nat \<Rightarrow> world \<Rightarrow> buffer \<times> world" where
  "randomBytes n w =
     (map (rng w) [rng_pos w ..< rng_pos w + n], w\<lparr>rng_pos := rng_pos w + n\<rparr>)"

definition readFileSync :: "jsstring \<Rightarrow> world \<Rightarrow> error + buffer" where
  "readFileSync filename w =
     (case files w filename of
        None \<Rightarrow> Inl (SystemError ''ENOENT'')
      | Some b \<Rightarrow> Inr b)"

definition writeFileSync :: "jsstring \<Rightarrow> buffer \<Rightarrow> world \<Rightarrow> error + world" where
  "writeFileSync filename b w =
     (if readonly w filename then Inl (SystemError ''EACCES'')
      else Inr (w\<lparr>files := (files w)(filename \<mapsto> b)\<rparr>))"

section \<open>The cipher \<^verbatim>\<open>aes-256-cbc\<close> of the crypto module\<close>

text \<open>
  \<^verbatim>\<open>createCipheriv("aes-256-cbc", key, iv)\<close> gives a cipher object that chains 16-byte
  blocks (CBC) and pads the last one (PKCS#7, the default). \<^verbatim>\<open>update\<close> encrypts the
  whole blocks it has, \<^verbatim>\<open>final\<close> pads what is left and encrypts it.
\<close>

definition xor_block :: "buffer \<Rightarrow> buffer \<Rightarrow> buffer" where
  "xor_block a b = map2 (XOR) a b"

function blocks_of :: "buffer \<Rightarrow> buffer list" where
  "blocks_of xs = (if xs = [] then [] else take 16 xs # blocks_of (drop 16 xs))"
  by pat_completeness auto
termination
  by (relation "measure length") auto

fun cbc_encrypt :: "(buffer \<Rightarrow> buffer) \<Rightarrow> buffer \<Rightarrow> buffer list \<Rightarrow> buffer list" where
  "cbc_encrypt E prev [] = []"
| "cbc_encrypt E prev (p # ps) = (let c = E (xor_block prev p) in c # cbc_encrypt E c ps)"

fun cbc_decrypt :: "(buffer \<Rightarrow> buffer) \<Rightarrow> buffer \<Rightarrow> buffer list \<Rightarrow> buffer list" where
  "cbc_decrypt D prev [] = []"
| "cbc_decrypt D prev (c # cs) = xor_block prev (D c) # cbc_decrypt D c cs"

record cipher =
  c_key :: buffer
  c_chain :: buffer
  c_pending :: buffer

record decipher =
  d_key :: buffer
  d_chain :: buffer
  d_pending :: buffer
  d_final :: "buffer option"

definition createCipheriv :: "buffer \<Rightarrow> buffer \<Rightarrow> error + cipher" where
  "createCipheriv key iv =
     (if length iv \<noteq> 16 then Inl (CryptoError ''Invalid initialization vector'')
      else if length key \<noteq> 32 then Inl (CryptoError ''Invalid key length'')
      else Inr \<lparr>c_key = key, c_chain = iv, c_pending = []\<rparr>)"

definition createDecipheriv :: "buffer \<Rightarrow> buffer \<Rightarrow> error + decipher" where
  "createDecipheriv key iv =
     (if length iv \<noteq> 16 then Inl (CryptoError ''Invalid initialization vector'')
      else if length key \<noteq> 32 then Inl (CryptoError ''Invalid key length'')
      else Inr \<lparr>d_key = key, d_chain = iv, d_pending = [], d_final = None\<rparr>)"

definition cipher_update :: "'v node \<Rightarrow> cipher \<Rightarrow> buffer \<Rightarrow> buffer \<times> cipher" where
  "cipher_update lib c data =
     (let buf = c_pending c @ data;
          n = length buf div 16 * 16;
          out = cbc_encrypt (aes256_encrypt lib (c_key c)) (c_chain c) (blocks_of (take n buf))
      in (concat out, c\<lparr>c_chain := last (c_chain c # out), c_pending := drop n buf\<rparr>))"

definition pkcs7_pad :: "buffer \<Rightarrow> buffer" where
  "pkcs7_pad r = (let n = 16 - length r mod 16 in r @ replicate n (of_nat n))"

definition cipher_final :: "'v node \<Rightarrow> cipher \<Rightarrow> buffer" where
  "cipher_final lib c =
     aes256_encrypt lib (c_key c) (xor_block (c_chain c) (pkcs7_pad (c_pending c)))"

text \<open>
  Decryption with padding: \<^verbatim>\<open>update\<close> decrypts the whole blocks it has and, when the
  input ends at a block boundary, holds the last decrypted block back for \<^verbatim>\<open>final\<close>.
  \<^verbatim>\<open>final\<close> fails on a partial block or when no block is held; otherwise it reads the
  pad length \<open>n\<close> off the last byte, fails unless \<open>1 \<le> n \<le> 16\<close> and the last \<open>n\<close> bytes
  all equal \<open>n\<close>, and returns the block without them.
\<close>

definition decipher_update :: "'v node \<Rightarrow> decipher \<Rightarrow> buffer \<Rightarrow> buffer \<times> decipher" where
  "decipher_update lib d data =
     (if data = [] then ([], d)
      else
        let buf = d_pending d @ data;
            n = length buf div 16 * 16;
            cs = blocks_of (take n buf);
            out = (case d_final d of None \<Rightarrow> [] | Some f \<Rightarrow> [f])
                  @ cbc_decrypt (aes256_decrypt lib (d_key d)) (d_chain d) cs;
            d' = d\<lparr>d_chain := last (d_chain d # cs), d_pending := drop n buf\<rparr>
        in if drop n buf = [] then (concat (butlast out), d'\<lparr>d_final := Some (last out)\<rparr>)
           else (concat out, d'\<lparr>d_final := None\<rparr>))"

definition pkcs7_unpad :: "buffer \<Rightarrow> error + buffer" where
  "pkcs7_unpad f =
     (if f = [] then Inl (CryptoError ''bad decrypt'')
      else
        let n = unat (last f)
        in if n = 0 \<or> n > 16 then Inl (CryptoError ''bad decrypt'')
           else if list_ex (\<lambda>x. unat x \<noteq> n) (drop (16 - n) f)
             then Inl (CryptoError ''bad decrypt'')
           else Inr (take (16 - n) f))"

definition decipher_final :: "decipher \<Rightarrow> error + buffer" where
  "decipher_final d =
     (if d_pending d \<noteq> [] then Inl (CryptoError ''wrong final block length'')
      else case d_final d of
             None \<Rightarrow> Inl (CryptoError ''wrong final block length'')
           | Some f \<Rightarrow> pkcs7_unpad f)"

section \<open>The class TopSecret\<close>

record topsecret =
  ts_key :: "buffer option"
  ts_password :: "jsstring option"

definition TopSecret_new :: topsecret where
  "TopSecret_new = \<lparr>ts_key = None, ts_password = None\<rparr>"

definition randomKey :: "topsecret \<Rightarrow> world \<Rightarrow> jsstring \<times> topsecret \<times> world" where
  "randomKey this w =
     (let (k, w') = randomBytes 32 w
      in (toString_hex k, this\<lparr>ts_key := Some k\<rparr>, w'))"

definition encryptBuffer ::
  "'v node \<Rightarrow> buffer \<Rightarrow> topsecret \<Rightarrow> world \<Rightarrow> (error + buffer) \<times> world" where
  "encryptBuffer lib buffer this w =
     (case ts_key this of
        None \<Rightarrow> (Inl (Error ''Key is not set.''), w)
      | Some key \<Rightarrow>
          (let (iv, w') = randomBytes 16 w
           in (case createCipheriv key iv of
                 Inl e \<Rightarrow> (Inl e, w')
               | Inr cipher \<Rightarrow>
                   (let (u, cipher') = cipher_update lib cipher buffer;
                        f = cipher_final lib cipher'
                    in (Inr (iv @ u @ f), w')))))"

definition decryptBuffer :: "'v node \<Rightarrow> buffer \<Rightarrow> topsecret \<Rightarrow> error + buffer" where
  "decryptBuffer lib buffer this =
     (case ts_key this of
        None \<Rightarrow> Inl (Error ''Key is not set.'')
      | Some key \<Rightarrow>
          (let iv = take 16 buffer;
               encryptedText = drop 16 buffer
           in (case createDecipheriv key iv of
                 Inl e \<Rightarrow> Inl e
               | Inr decipher \<Rightarrow>
                   (let (u, decipher') = decipher_update lib decipher encryptedText
                    in (case decipher_final decipher' of
                          Inl e \<Rightarrow> Inl e
                        | Inr f \<Rightarrow> Inr (u @ f))))))"

definition encryptJSON ::
  "'v node \<Rightarrow> 'v \<Rightarrow> topsecret \<Rightarrow> world \<Rightarrow> (error + jsstring) \<times> world" where
  "encryptJSON lib data this w =
     (case ts_key this of
        None \<Rightarrow> (Inl (Error ''Key is not set.''), w)
      | Some key \<Rightarrow>
          (case JSON_stringify lib data of
             Inl e \<Rightarrow> (Inl e, w)
           | Inr None \<Rightarrow> (Inl (TypeError ''The first argument must be of type string''), w)
           | Inr (Some jsonString) \<Rightarrow>
               (case encryptBuffer lib (utf8_encode lib jsonString) this w of
                  (Inl e, w') \<Rightarrow> (Inl e, w')
                | (Inr encryptedBuffer, w') \<Rightarrow> (Inr (base64_encode lib encryptedBuffer), w'))))"

definition decryptJSON :: "'v node \<Rightarrow> jsstring \<Rightarrow> topsecret \<Rightarrow> error + 'v" where
  "decryptJSON lib encryptedData this =
     (case ts_key this of
        None \<Rightarrow> Inl (Error ''Key is not set.'')
      | Some key \<Rightarrow>
          (case decryptBuffer lib (base64_decode lib encryptedData) this of
             Inl e \<Rightarrow> Inl e
           | Inr decryptedBuffer \<Rightarrow> JSON_parse lib (utf8_decode lib decryptedBuffer)))"

definition get_key :: "topsecret \<Rightarrow> error + jsstring" where
  "get_key this =
     (case ts_key this of
        None \<Rightarrow> Inl (TypeError ''Cannot read properties of null'')
      | Some k \<Rightarrow> Inr (toString_hex k))"

definition set_key :: "jsval \<Rightarrow> topsecret \<Rightarrow> error + topsecret" where
  "set_key v this =
     (case js_length v of
        Inl e \<Rightarrow> Inl e
      | Inr n \<Rightarrow>
          if n \<noteq> Some 64 then Inl (Error ''Key must be 64 bytes long.'')
          else (case js_call_from v (map of_nat [104, 101, 120]) of
                  Inl e \<Rightarrow> Inl e
                | Inr k \<Rightarrow> Inr (this\<lparr>ts_key := Some k\<rparr>)))"

definition get_password :: "topsecret \<Rightarrow> jsstring option" where
  "get_password this = ts_password this"

definition set_password :: "'v node \<Rightarrow> jsval \<Rightarrow> topsecret \<Rightarrow> error + topsecret" where
  "set_password lib v this =
     (case v of
        JString s \<Rightarrow>
          if length s = 0 then Inl (Error ''Password must be a non-empty string.'')
          else Inr (this\<lparr>ts_password := Some s,
                         ts_key := Some (sha256 lib (utf8_encode lib s))\<rparr>)
      | _ \<Rightarrow> Inl (Error ''Password must be a non-empty string.''))"

definition loadBufferFromFile ::
  "'v node \<Rightarrow> jsstring \<Rightarrow> topsecret \<Rightarrow> world \<Rightarrow> error + buffer" where
  "loadBufferFromFile lib filename this w =
     (case readFileSync filename w of
        Inl e \<Rightarrow> Inl (Error ''Failed to load buffer from file.'')
      | Inr encryptedBuffer \<Rightarrow>
          (case decryptBuffer lib encryptedBuffer this of
             Inl e \<Rightarrow> Inl (Error ''Failed to load buffer from file.'')
           | Inr b \<Rightarrow> Inr b))"

definition loadJSONFromFile ::
  "'v node \<Rightarrow> jsstring \<Rightarrow> topsecret \<Rightarrow> world \<Rightarrow> error + 'v" where
  "loadJSONFromFile lib filename this w =
     (case readFileSync filename w of
        Inl e \<Rightarrow> Inl (Error ''Failed to load JSON from file.'')
      | Inr raw \<Rightarrow>
          (case decryptJSON lib (utf8_decode lib raw) this of
             Inl e \<Rightarrow> Inl (Error ''Failed to load JSON from file.'')
           | Inr v \<Rightarrow> Inr v))"

definition saveBufferToFile ::
  "'v node \<Rightarrow> jsstring \<Rightarrow> buffer \<Rightarrow> topsecret \<Rightarrow> world \<Rightarrow> (error + unit) \<times> world" where
  "saveBufferToFile lib filename buffer this w =
     (case encryptBuffer lib buffer this w of
        (Inl e, w') \<Rightarrow> (Inl (Error ''Failed to save buffer to file.''), w')
      | (Inr encryptedBuffer, w') \<Rightarrow>
          (case writeFileSync filename encryptedBuffer w' of
             Inl e \<Rightarrow> (Inl (Error ''Failed to save buffer to file.''), w')
           | Inr w'' \<Rightarrow> (Inr (), w'')))"

definition saveJSONToFile ::
  "'v node \<Rightarrow> jsstring \<Rightarrow> 'v \<Rightarrow> topsecret \<Rightarrow> world \<Rightarrow> (error + unit) \<times> world" where
  "saveJSONToFile lib filename data this w =
     (case encryptJSON lib data this w of
        (Inl e, w') \<Rightarrow> (Inl (Error ''Failed to save JSON to file.''), w')
      | (Inr encryptedData, w') \<Rightarrow>
          (case writeFileSync filename (utf8_encode lib encryptedData) w' of
             Inl e \<Rightarrow> (Inl (Error ''Failed to save JSON to file.''), w')
           | Inr w'' \<Rightarrow> (Inr (), w'')))"

text \<open>
  A call \<^verbatim>\<open>instance.name(...)\<close> first reads the property \<open>name\<close>: off the instance
  (the two fields the constructor assigns), then off the prototype of the class (the
  members the class body declares, in the order of the source), then off
  \<^verbatim>\<open>Object.prototype\<close>. A name that none of them has reads as \<^verbatim>\<open>undefined\<close>.
\<close>

datatype property = ClassConstructor | Method | Accessor | Data

definition instance_properties :: "(string \<times> property) list" where
  "instance_properties = [(''_key'', Data), (''_password'', Data)]"

definition TopSecret_prototype :: "(string \<times> property) list" where
  "TopSecret_prototype =
     [(''constructor'', ClassConstructor), (''randomKey'', Accessor),
      (''encryptBuffer'', Method), (''encryptJSON'', Method), (''decryptBuffer'', Method),
      (''decryptJSON'', Method), (''key'', Accessor), (''password'', Accessor),
      (''loadBufferFromFile'', Method), (''loadJSONFromFile'', Method),
      (''saveBufferToFile'', Method), (''saveJSONToFile'', Method)]"

definition Object_prototype :: "(string \<times> property) list" where
  "Object_prototype =
     [(''constructor'', Method), (''__defineGetter__'', Method), (''__defineSetter__'', Method),
      (''hasOwnProperty'', Method), (''__lookupGetter__'', Method),
      (''__lookupSetter__'', Method), (''isPrototypeOf'', Method),
      (''propertyIsEnumerable'', Method), (''toString'', Method), (''valueOf'', Method),
      (''__proto__'', Accessor), (''toLocaleString'', Method)]"

definition get_property :: "string \<Rightarrow> property option" where
  "get_property name =
     map_of (instance_properties @ TopSecret_prototype @ Object_prototype) name"

text \<open>
  \<open>call_member\<close> is the call up to the point where the callee is known: it returns
  \<open>Inr ()\<close> when the callee is a function (the call goes on into that method, with the
  state it returns) and the \<open>TypeError\<close> of the runtime otherwise. A method is a function.
  The class constructor refuses a call without \<^verbatim>\<open>new\<close>. A getter is run first and its
  value called: \<^verbatim>\<open>randomKey\<close> sets a new key and gives a string, \<^verbatim>\<open>key\<close> throws on
  an unset key and gives a string otherwise, \<^verbatim>\<open>password\<close> gives \<^verbatim>\<open>null\<close> or a string,
  \<^verbatim>\<open>__proto__\<close> an object; the two fields hold \<^verbatim>\<open>null\<close>, a Buffer or a string. None of
  these values is a function.
\<close>

definition call_member ::
  "string \<Rightarrow> topsecret \<Rightarrow> world \<Rightarrow> (error + unit) \<times> topsecret \<times> world" where
  "call_member name this w =
     (case get_property name of
        None \<Rightarrow> (Inl (TypeError (name @ '' is not a function'')), this, w)
      | Some Method \<Rightarrow> (Inr (), this, w)
      | Some ClassConstructor \<Rightarrow>
          (Inl (TypeError ''Class constructor TopSecret cannot be invoked without new''),
           this, w)
      | Some Data \<Rightarrow> (Inl (TypeError (name @ '' is not a function'')), this, w)
      | Some Accessor \<Rightarrow>
          (if name = ''randomKey'' then
             (let (h, this', w') = randomKey this w
              in (Inl (TypeError ''randomKey is not a function''), this', w'))
           else if name = ''key'' then
             (case get_key this of
                Inl e \<Rightarrow> (Inl e, this, w)
              | Inr h \<Rightarrow> (Inl (TypeError ''key is not a function''), this, w))
           else (Inl (TypeError (name @ '' is not a function'')), this, w)))"

section \<open>Notions the statements use\<close>

text \<open>A byte sequence ends in a valid PKCS#7 padding when its last byte \<open>n\<close> lies
  between 1 and 16 and its last \<open>n\<close> bytes all equal \<open>n\<close>.\<close>

definition pkcs7_valid :: "buffer \<Rightarrow> bool" where
  "pkcs7_valid p \<longleftrightarrow>
     p \<noteq> [] \<and>
     (let n = unat (last p)
      in 1 \<le> n \<and> n \<le> 16 \<and> n \<le> length p \<and> list_all (\<lambda>x. unat x = n) (drop (length p - n) p))"

text \<open>The CBC decryption of an envelope's ciphertext part (all after the first 16 bytes)
  under the envelope's IV (its first 16 bytes), padding included.\<close>

definition cbc_plaintext :: "'v node \<Rightarrow> buffer \<Rightarrow> buffer \<Rightarrow> buffer" where
  "cbc_plaintext lib key envelope =
     concat (cbc_decrypt (aes256_decrypt lib key) (take 16 envelope) (blocks_of (drop 16 envelope)))"

text \<open>What SHA-256 and base64 are assumed to be: a digest has 32 bytes, and decoding
  undoes encoding.\<close>

definition sha256_ok :: "'v node \<Rightarrow> bool" where
  "sha256_ok lib \<longleftrightarrow> (\<forall>b. length (sha256 lib b) = 32)"

definition base64_ok :: "'v node \<Rightarrow> bool" where
  "base64_ok lib \<longleftrightarrow> (\<forall>b. base64_decode lib (base64_encode lib b) = b)"

text \<open>A value is JSON-serializable on a platform when \<^verbatim>\<open>JSON.stringify\<close> returns a
  text for it, the text is unchanged by encoding to UTF-8 and back, and \<^verbatim>\<open>JSON.parse\<close>
  reads the value back from it.\<close>

definition json_serializable :: "'v node \<Rightarrow> 'v \<Rightarrow> bool" where
  "json_serializable lib v =
     (case JSON_stringify lib v of
        Inr (Some s) \<Rightarrow> utf8_decode lib (utf8_encode lib s) = s \<and> JSON_parse lib s = Inr v
      | _ \<Rightarrow> False)"

section \<open>A sample platform and instance\<close>

text \<open>A platform on which every definition computes: a keyed byte-wise addition in the
  place of the AES block function, one code unit per byte for the codecs, and texts as
  JSON values.\<close>

definition sample_node :: "jsstring node" where
  "sample_node =
     \<lparr>aes256_encrypt = (\<lambda>k x. map2 (+) x (take 16 k)),
      aes256_decrypt = (\<lambda>k y. map2 (-) y (take 16 k)),
      sha256 = (\<lambda>b. replicate 32 (of_nat (length b))),
      utf8_encode = map ucast,
      utf8_decode = map ucast,
      base64_encode = map ucast,
      base64_decode = map ucast,
      JSON_stringify = (\<lambda>v. Inr (Some v)),
      JSON_parse = (\<lambda>s. Inr s)\<rparr>"

definition sample_instance :: topsecret where
  "sample_instance = \<lparr>ts_key = Some (replicate 32 7), ts_password = None\<rparr>"

definition sample_world :: world where
  "sample_world = \<lparr>rng = of_nat, rng_pos = 0, files = Map.empty, readonly = (\<lambda>f. False)\<rparr>"

text \<open>A world whose generator hands out the same 16 bytes again and again.\<close>

definition repeating_world :: world where
  "repeating_world =
     \<lparr>rng = (\<lambda>i. of_nat (i mod 16)), rng_pos = 0, files = Map.empty,
      readonly = (\<lambda>f. False)\<rparr>"

section \<open>Properties of the model\<close>

subsection \<open>Splitting a buffer into blocks\<close>

declare blocks_of.simps [simp del]

lemma blocks_of_Nil [simp]: "blocks_of [] = []"
  by (simp add: blocks_of.simps)

lemma blocks_of_nonempty: "xs \<noteq> [] \<Longrightarrow> blocks_of xs = take 16 xs # blocks_of (drop 16 xs)"
  by (subst blocks_of.simps) simp

lemma concat_blocks_of [simp]: "concat (blocks_of xs) = xs"
  by (induction xs rule: blocks_of.induct) (subst blocks_of.simps, simp)

lemma blocks_of_append:
  "length b = 16 \<Longrightarrow> blocks_of (b @ xs) = b # blocks_of xs"
  by (subst blocks_of.simps) auto

lemma blocks_of_concat:
  "list_all (\<lambda>b. length b = 16) bs \<Longrightarrow> blocks_of (concat bs) = bs"
  by (induction bs) (simp_all add: blocks_of_append)

lemma blocks_of_full:
  "16 dvd length xs \<Longrightarrow> list_all (\<lambda>b. length b = 16) (blocks_of xs)"
proof (induction xs rule: blocks_of.induct)
  case (1 xs)
  show ?case
  proof (cases "xs = []")
    case True
    then show ?thesis by simp
  next
    case False
    from 1(2) False have len: "16 \<le> length xs"
      by (cases "length xs = 0") (auto dest: dvd_imp_le)
    from 1(2) len have "16 dvd length (drop 16 xs)"
      by simp
    with 1(1) False have "list_all (\<lambda>b. length b = 16) (blocks_of (drop 16 xs))"
      by simp
    with len False show ?thesis
      by (simp add: blocks_of_nonempty)
  qed
qed

lemma blocks_of_concat_append:
  "list_all (\<lambda>b. length b = 16) bs \<Longrightarrow> blocks_of (concat bs @ ys) = bs @ blocks_of ys"
  by (induction bs) (simp_all add: blocks_of_append)

lemma blocks_of_app:
  assumes "16 dvd length xs"
  shows "blocks_of (xs @ ys) = blocks_of xs @ blocks_of ys"
  using blocks_of_concat_append [OF blocks_of_full [OF assms], of ys] by simp

lemma length_concat_blocks:
  "list_all (\<lambda>b. length b = 16) bs \<Longrightarrow> length (concat bs) = 16 * length bs"
  by (induction bs) simp_all

lemma list_all_last: "bs \<noteq> [] \<Longrightarrow> list_all P bs \<Longrightarrow> P (last bs)"
  by (induction bs) auto

subsection \<open>Chaining\<close>

lemma length_xor_block [simp]: "length (xor_block a b) = min (length a) (length b)"
  by (simp add: xor_block_def)

lemma xor_block_cancel: "length a = length b \<Longrightarrow> xor_block a (xor_block a b) = b"
  unfolding xor_block_def
  by (induction a b rule: list_induct2) (simp_all add: xor.assoc [symmetric])

lemma length_cbc_encrypt [simp]: "length (cbc_encrypt E prev ps) = length ps"
  by (induction ps arbitrary: prev) (simp_all add: Let_def)

lemma length_cbc_decrypt [simp]: "length (cbc_decrypt D prev cs) = length cs"
  by (induction cs arbitrary: prev) simp_all

lemma cbc_encrypt_snoc:
  "cbc_encrypt E prev (ps @ [p]) =
     cbc_encrypt E prev ps @ [E (xor_block (last (prev # cbc_encrypt E prev ps)) p)]"
  by (induction ps arbitrary: prev) (simp_all add: Let_def)

lemma cbc_encrypt_blocks:
  assumes "\<And>x. length x = 16 \<Longrightarrow> length (E x) = 16"
    and "length prev = 16" and "list_all (\<lambda>b. length b = 16) ps"
  shows "list_all (\<lambda>b. length b = 16) (cbc_encrypt E prev ps)"
  using assms(2,3)
  by (induction ps arbitrary: prev) (simp_all add: Let_def assms(1))

lemma cbc_decrypt_blocks:
  assumes "\<And>x. length x = 16 \<Longrightarrow> length (D x) = 16"
    and "length prev = 16" and "list_all (\<lambda>b. length b = 16) cs"
  shows "list_all (\<lambda>b. length b = 16) (cbc_decrypt D prev cs)"
  using assms(2,3)
  by (induction cs arbitrary: prev) (simp_all add: assms(1))

lemma cbc_decrypt_encrypt:
  assumes "\<And>x. length x = 16 \<Longrightarrow> length (E x) = 16 \<and> D (E x) = x"
    and "length prev = 16" and "list_all (\<lambda>b. length b = 16) ps"
  shows "cbc_decrypt D prev (cbc_encrypt E prev ps) = ps"
  using assms(2,3)
  by (induction ps arbitrary: prev) (simp_all add: Let_def assms(1) xor_block_cancel)

subsection \<open>Padding\<close>

lemma length_pkcs7_pad: "length (pkcs7_pad r) = 16 * (length r div 16 + 1)"
proof -
  have "length r mod 16 < 16" by simp
  then have "length r + (16 - length r mod 16) = 16 * (length r div 16 + 1)"
    by presburger
  then show ?thesis
    by (simp add: pkcs7_pad_def Let_def)
qed

lemma pkcs7_pad_short: "length r < 16 \<Longrightarrow> length (pkcs7_pad r) = 16"
  by (simp add: length_pkcs7_pad)

lemma pkcs7_pad_split:
  "pkcs7_pad b = take (length b div 16 * 16) b @ pkcs7_pad (drop (length b div 16 * 16) b)"
proof -
  have "length b - length b div 16 * 16 = length b mod 16"
    by (simp add: minus_div_mult_eq_mod)
  then show ?thesis
    by (simp add: pkcs7_pad_def Let_def)
qed

lemma blocks_of_pkcs7_pad:
  "blocks_of (pkcs7_pad b) =
     blocks_of (take (length b div 16 * 16) b) @ [pkcs7_pad (drop (length b div 16 * 16) b)]"
proof -
  let ?n = "length b div 16 * 16"
  have n: "?n \<le> length b" by simp
  have "length (drop ?n b) = length b mod 16"
    by (simp add: minus_div_mult_eq_mod)
  then have short: "length (pkcs7_pad (drop ?n b)) = 16"
    by (simp add: pkcs7_pad_short)
  have d: "16 dvd length (take ?n b)"
    using n by (simp add: min_absorb2)
  have "blocks_of (pkcs7_pad b) = blocks_of (take ?n b @ pkcs7_pad (drop ?n b))"
    by (subst pkcs7_pad_split) simp
  also have "\<dots> = blocks_of (take ?n b) @ blocks_of (pkcs7_pad (drop ?n b))"
    by (rule blocks_of_app [OF d])
  also have "blocks_of (pkcs7_pad (drop ?n b)) = [pkcs7_pad (drop ?n b)]"
    using blocks_of_append [OF short, of "[]"] by simp
  finally show ?thesis .
qed

lemma pkcs7_pad_blocks:
  "list_all (\<lambda>b. length b = 16) (blocks_of (pkcs7_pad b))"
  by (rule blocks_of_full) (simp add: length_pkcs7_pad)

lemma length_blocks_of_pkcs7_pad: "length (blocks_of (pkcs7_pad b)) = length b div 16 + 1"
proof -
  have "length (concat (blocks_of (pkcs7_pad b))) = 16 * length (blocks_of (pkcs7_pad b))"
    by (rule length_concat_blocks [OF pkcs7_pad_blocks])
  then show ?thesis
    by (simp add: length_pkcs7_pad)
qed

lemma unat_pad_byte: "n \<le> 16 \<Longrightarrow> unat (of_nat n :: byte) = n"
  by (simp add: unat_of_nat)

lemma pkcs7_unpad_pad:
  assumes "length r < 16"
  shows "pkcs7_unpad (pkcs7_pad r) = Inr r"
proof -
  define n where "n = 16 - length r"
  have n: "0 < n" "n \<le> 16" and dr: "16 - n = length r"
    using assms by (simp_all add: n_def)
  have pad: "pkcs7_pad r = r @ replicate n (of_nat n)"
    using assms by (simp add: pkcs7_pad_def n_def)
  have lst: "last (r @ replicate n (of_nat n :: byte)) = of_nat n"
    using n by simp
  have u: "unat (of_nat n :: byte) = n"
    by (rule unat_pad_byte [OF n(2)])
  have ne: "r @ replicate n (of_nat n :: byte) \<noteq> []"
    using n by simp
  show ?thesis
    unfolding pad pkcs7_unpad_def lst Let_def u dr
    using n ne by (simp add: list_ex_iff u)
qed

lemma pkcs7_valid_last_block:
  assumes "length f = 16"
  shows "pkcs7_valid (a @ f) \<longleftrightarrow> pkcs7_valid f"
proof -
  have ne: "f \<noteq> []" using assms by auto
  define n where "n = unat (last f)"
  have d: "drop (length (a @ f) - n) (a @ f) = drop (length f - n) f" if "n \<le> 16"
    using that assms by simp
  have "pkcs7_valid (a @ f) \<longleftrightarrow>
          (1 \<le> n \<and> n \<le> 16 \<and> list_all (\<lambda>x. unat x = n) (drop (length (a @ f) - n) (a @ f)))"
    using ne assms by (auto simp add: pkcs7_valid_def Let_def n_def)
  also have "\<dots> \<longleftrightarrow> (1 \<le> n \<and> n \<le> 16 \<and> list_all (\<lambda>x. unat x = n) (drop (length f - n) f))"
    using d by auto
  also have "\<dots> \<longleftrightarrow> pkcs7_valid f"
    using ne assms by (auto simp add: pkcs7_valid_def Let_def n_def)
  finally show ?thesis .
qed

lemma pkcs7_unpad_block:
  assumes "length f = 16"
  shows "pkcs7_unpad f =
     (if pkcs7_valid f then Inr (take (16 - unat (last f)) f)
      else Inl (CryptoError ''bad decrypt''))"
proof -
  have ne: "f \<noteq> []" using assms by auto
  define n where "n = unat (last f)"
  have v: "pkcs7_valid f \<longleftrightarrow>
      (1 \<le> n \<and> n \<le> 16 \<and> list_all (\<lambda>x. unat x = n) (drop (16 - n) f))"
    using ne assms by (auto simp add: pkcs7_valid_def Let_def n_def)
  have u: "pkcs7_unpad f =
      (if n = 0 \<or> n > 16 then Inl (CryptoError ''bad decrypt'')
       else if list_ex (\<lambda>x. unat x \<noteq> n) (drop (16 - n) f) then Inl (CryptoError ''bad decrypt'')
       else Inr (take (16 - n) f))"
    using ne by (simp add: pkcs7_unpad_def Let_def n_def)
  have ex: "list_ex (\<lambda>x. unat x \<noteq> n) xs \<longleftrightarrow> \<not> list_all (\<lambda>x. unat x = n) xs" for xs :: buffer
    by (simp add: list_ex_iff list_all_iff)
  show ?thesis
    unfolding u v ex n_def [symmetric] by auto
qed

lemma unpad_last_block:
  assumes "length f = 16"
  shows "(case pkcs7_unpad f of Inl e \<Rightarrow> Inl e | Inr g \<Rightarrow> Inr (a @ g)) =
     (if pkcs7_valid (a @ f)
      then Inr (take (length (a @ f) - unat (last (a @ f))) (a @ f))
      else Inl (CryptoError ''bad decrypt''))"
proof (cases "pkcs7_valid f")
  case True
  have ne: "f \<noteq> []" using assms by auto
  have n: "unat (last f) \<le> 16"
    using True by (simp add: pkcs7_valid_def Let_def)
  have "take (length (a @ f) - unat (last (a @ f))) (a @ f) = a @ take (16 - unat (last f)) f"
    using n ne assms by simp
  then show ?thesis
    using True by (simp only: pkcs7_unpad_block [OF assms] pkcs7_valid_last_block [OF assms]
        if_True sum.case)
next
  case False
  then show ?thesis
    by (simp only: pkcs7_unpad_block [OF assms] pkcs7_valid_last_block [OF assms]
        if_False sum.case)
qed

subsection \<open>What encryptBuffer returns and what decryptBuffer makes of it\<close>

lemma length_randomBytes [simp]: "length (fst (randomBytes n w)) = n"
  by (simp add: randomBytes_def)

lemma randomBytes_next:
  "fst (randomBytes n (snd (randomBytes m w))) = map (rng w) [rng_pos w + m ..< rng_pos w + m + n]"
  by (simp add: randomBytes_def)

lemma encryptBuffer_key:
  assumes "ts_key this = Some key" and "length key = 32"
  shows "encryptBuffer lib b this w =
     (Inr (fst (randomBytes 16 w) @
           concat (cbc_encrypt (aes256_encrypt lib key) (fst (randomBytes 16 w))
                     (blocks_of (pkcs7_pad b)))),
      snd (randomBytes 16 w))"
  using assms
  by (simp add: encryptBuffer_def createCipheriv_def cipher_update_def cipher_final_def
      Let_def split_beta blocks_of_pkcs7_pad cbc_encrypt_snoc)

lemma length_envelope:
  assumes ok: "aes_ok lib" and k: "length k = 32" and iv: "length iv = 16"
  shows "length (iv @ concat (cbc_encrypt (aes256_encrypt lib k) iv (blocks_of (pkcs7_pad b))))
           = 16 + 16 * (length b div 16 + 1)"
proof -
  have E: "\<And>x. length x = 16 \<Longrightarrow> length (aes256_encrypt lib k x) = 16"
    using ok k by (simp add: aes_ok_def)
  have "list_all (\<lambda>c. length c = 16)
          (cbc_encrypt (aes256_encrypt lib k) iv (blocks_of (pkcs7_pad b)))"
    by (rule cbc_encrypt_blocks [OF E iv pkcs7_pad_blocks])
  then show ?thesis
    by (simp add: length_concat_blocks iv length_blocks_of_pkcs7_pad)
qed

lemma decryptBuffer_blocks:
  assumes "ts_key this = Some key" and "length key = 32" and "length iv = 16"
    and "cs \<noteq> []" and "list_all (\<lambda>b. length b = 16) cs"
  shows "decryptBuffer lib (iv @ concat cs) this =
     (case pkcs7_unpad (last (cbc_decrypt (aes256_decrypt lib key) iv cs)) of
        Inl e \<Rightarrow> Inl e
      | Inr f \<Rightarrow> Inr (concat (butlast (cbc_decrypt (aes256_decrypt lib key) iv cs)) @ f))"
proof -
  have len: "length (concat cs) = 16 * length cs"
    by (rule length_concat_blocks [OF assms(5)])
  have ne: "concat cs \<noteq> []"
  proof
    assume "concat cs = []"
    then have "length (concat cs) = 0" by simp
    with len assms(4) show False by simp
  qed
  show ?thesis
    using assms(1-3) ne
    by (auto simp add: decryptBuffer_def createDecipheriv_def decipher_update_def
        decipher_final_def Let_def len blocks_of_concat [OF assms(5)])
qed

lemma decrypt_envelope:
  assumes ok: "aes_ok lib" and key: "ts_key this = Some k" "length k = 32"
    and iv: "length iv = 16"
  shows "decryptBuffer lib
           (iv @ concat (cbc_encrypt (aes256_encrypt lib k) iv (blocks_of (pkcs7_pad b)))) this
         = Inr b"
proof -
  let ?E = "aes256_encrypt lib k" and ?D = "aes256_decrypt lib k"
  let ?n = "length b div 16 * 16"
  let ?ps = "blocks_of (pkcs7_pad b)"
  let ?cs = "cbc_encrypt ?E iv ?ps"
  have E: "\<And>x. length x = 16 \<Longrightarrow> length (?E x) = 16 \<and> ?D (?E x) = x"
    using ok key(2) by (simp add: aes_ok_def)
  have ps: "list_all (\<lambda>b. length b = 16) ?ps"
    by (rule pkcs7_pad_blocks)
  have cs: "list_all (\<lambda>b. length b = 16) ?cs"
    by (rule cbc_encrypt_blocks [OF _ iv ps]) (simp add: E)
  have parts: "?ps = blocks_of (take ?n b) @ [pkcs7_pad (drop ?n b)]"
    by (rule blocks_of_pkcs7_pad)
  have ne: "?cs \<noteq> []"
  proof
    assume "?cs = []"
    then have "length ?cs = 0" by simp
    then show False by (simp add: parts)
  qed
  have undo: "cbc_decrypt ?D iv ?cs = ?ps"
    by (rule cbc_decrypt_encrypt [OF E iv ps])
  have short: "length (drop ?n b) < 16"
    by (simp add: minus_div_mult_eq_mod)
  have "decryptBuffer lib (iv @ concat ?cs) this =
          (case pkcs7_unpad (last ?ps) of
             Inl e \<Rightarrow> Inl e
           | Inr f \<Rightarrow> Inr (concat (butlast ?ps) @ f))"
    using decryptBuffer_blocks [OF key iv ne cs, of lib] by (simp only: undo)
  also have "\<dots> = Inr (take ?n b @ drop ?n b)"
    by (simp add: parts pkcs7_unpad_pad [OF short])
  finally show ?thesis by simp
qed

subsection \<open>Every way decryptBuffer goes\<close>

lemma decryptBuffer_short:
  assumes "ts_key this = Some k" and "length env < 16"
  shows "decryptBuffer lib env this = Inl (CryptoError ''Invalid initialization vector'')"
  using assms by (simp add: decryptBuffer_def createDecipheriv_def)

lemma decipher_update_partial:
  assumes "length ct mod 16 \<noteq> 0"
  shows "d_pending (snd (decipher_update lib
           \<lparr>d_key = k, d_chain = iv, d_pending = [], d_final = None\<rparr> ct)) \<noteq> []"
proof -
  have ne: "ct \<noteq> []" using assms by auto
  have "length ct div 16 * 16 < length ct"
    using assms div_mult_mod_eq [of "length ct" 16] by linarith
  then have "drop (length ct div 16 * 16) ct \<noteq> []"
    by simp
  then show ?thesis
    using ne by (simp add: decipher_update_def Let_def)
qed

lemma decryptBuffer_misaligned:
  assumes "ts_key this = Some k" and "length k = 32" and "16 \<le> length env"
    and "\<not> 16 dvd (length env - 16)"
  shows "decryptBuffer lib env this = Inl (CryptoError ''wrong final block length'')"
proof -
  have m: "length (drop 16 env) mod 16 \<noteq> 0"
    using assms(4) by (simp add: dvd_eq_mod_eq_0)
  have iv: "length (take 16 env) = 16"
    using assms(3) by simp
  show ?thesis
    using decipher_update_partial [OF m, of lib k "take 16 env"] assms(1,2) iv
    by (simp add: decryptBuffer_def createDecipheriv_def decipher_final_def split_beta
        del: length_take length_drop)
qed

lemma decryptBuffer_no_ciphertext:
  assumes "ts_key this = Some k" and "length k = 32" and "length env = 16"
  shows "decryptBuffer lib env this = Inl (CryptoError ''wrong final block length'')"
  using assms
  by (simp add: decryptBuffer_def createDecipheriv_def decipher_update_def decipher_final_def)

lemma decryptBuffer_aligned:
  assumes ok: "aes_ok lib" and key: "ts_key this = Some k" "length k = 32"
    and len: "16 < length env" "16 dvd (length env - 16)"
  shows "decryptBuffer lib env this =
     (if pkcs7_valid (cbc_plaintext lib k env)
      then Inr (take (length (cbc_plaintext lib k env) - unat (last (cbc_plaintext lib k env)))
                  (cbc_plaintext lib k env))
      else Inl (CryptoError ''bad decrypt''))"
proof -
  let ?iv = "take 16 env" and ?ct = "drop 16 env"
  let ?D = "aes256_decrypt lib k"
  let ?cs = "blocks_of ?ct"
  define ps where "ps = cbc_decrypt ?D ?iv ?cs"
  have iv: "length ?iv = 16" using len(1) by simp
  have D: "\<And>x. length x = 16 \<Longrightarrow> length (?D x) = 16"
    using ok key(2) by (simp add: aes_ok_def)
  have cs: "list_all (\<lambda>b. length b = 16) ?cs"
    by (rule blocks_of_full) (simp add: len(2))
  have ct_ne: "?ct \<noteq> []" using len(1) by simp
  then have cs_ne: "?cs \<noteq> []"
    by (simp add: blocks_of_nonempty)
  have ps: "list_all (\<lambda>b. length b = 16) ps"
    unfolding ps_def by (rule cbc_decrypt_blocks [OF D iv cs])
  have "length ps = length ?cs"
    by (simp add: ps_def)
  with cs_ne have ps_ne: "ps \<noteq> []"
    by auto
  have lastlen: "length (last ps) = 16"
    by (rule list_all_last [OF ps_ne ps])
  have "concat ps = concat (butlast ps @ [last ps])"
    by (simp only: append_butlast_last_id [OF ps_ne])
  then have plain: "cbc_plaintext lib k env = concat (butlast ps) @ last ps"
    by (simp add: cbc_plaintext_def ps_def)
  have "decryptBuffer lib (?iv @ concat ?cs) this =
          (case pkcs7_unpad (last ps) of
             Inl e \<Rightarrow> Inl e
           | Inr f \<Rightarrow> Inr (concat (butlast ps) @ f))"
    unfolding ps_def by (rule decryptBuffer_blocks [OF key iv cs_ne cs])
  then have "decryptBuffer lib env this =
          (case pkcs7_unpad (last ps) of
             Inl e \<Rightarrow> Inl e
           | Inr f \<Rightarrow> Inr (concat (butlast ps) @ f))"
    by simp
  then show ?thesis
    by (simp only: plain unpad_last_block [OF lastlen])
qed

subsection \<open>Keys in hexadecimal\<close>

lemma unat_hex_digit:
  assumes "n < 16"
  shows "unat (hex_digit n) = (if n < 10 then 48 + n else 87 + n)"
proof -
  have u: "unat (of_nat m :: 16 word) = m" if "m < 65536" for m
    using that by (simp add: unat_of_nat)
  show ?thesis
    unfolding hex_digit_def using assms by (auto simp only: u split: if_splits) 
qed

lemma is_hex_char_digit: "n < 16 \<Longrightarrow> is_hex_char (hex_digit n)"
  by (simp add: is_hex_char_def unat_hex_digit)

lemma toString_hex_chars: "list_all is_hex_char (toString_hex b)"
proof -
  have "unat x div 16 < 16" for x :: byte
  proof -
    have "unat x < 2 ^ 8"
      using unsigned_less [of x, where 'a = nat] by simp
    then show ?thesis by simp
  qed
  then show ?thesis
    by (induction b) (simp_all add: toString_hex_def is_hex_char_digit)
qed

lemma length_toString_hex: "length (toString_hex b) = 2 * length b"
  by (induction b) (simp_all add: toString_hex_def)

lemma get_key_hex:
  assumes "ts_key this = Some k" and "length k = 32"
  shows "\<exists>h. get_key this = Inr h \<and> length h = 64 \<and> list_all is_hex_char h"
  using assms by (simp add: get_key_def length_toString_hex toString_hex_chars)

lemma randomKey_hex:
  "length (fst (randomKey this w)) = 64 \<and>
   (\<exists>k. ts_key (fst (snd (randomKey this w))) = Some k \<and> length k = 32)"
  by (simp add: randomKey_def randomBytes_def length_toString_hex)

subsection \<open>Files\<close>

lemma save_load_roundtrip:
  assumes "aes_ok lib" and "ts_key this = Some k" and "length k = 32"
    and "\<not> readonly w filename"
  shows "\<exists>w'. saveBufferToFile lib filename b this w = (Inr (), w') \<and>
              loadBufferFromFile lib filename this w' = Inr b"
proof -
  define iv where "iv = fst (randomBytes 16 w)"
  define env where
    "env = iv @ concat (cbc_encrypt (aes256_encrypt lib k) iv (blocks_of (pkcs7_pad b)))"
  define w1 where "w1 = snd (randomBytes 16 w)"
  have enc: "encryptBuffer lib b this w = (Inr env, w1)"
    unfolding env_def iv_def w1_def by (rule encryptBuffer_key [OF assms(2,3)])
  have dec: "decryptBuffer lib env this = Inr b"
    unfolding env_def by (rule decrypt_envelope [OF assms(1-3)]) (simp add: iv_def)
  have ro: "\<not> readonly w1 filename"
    using assms(4) by (simp add: w1_def randomBytes_def)
  have "saveBufferToFile lib filename b this w
          = (Inr (), w1\<lparr>files := (files w1)(filename \<mapsto> env)\<rparr>)"
    by (simp add: saveBufferToFile_def enc writeFileSync_def ro)
  moreover have "loadBufferFromFile lib filename this (w1\<lparr>files := (files w1)(filename \<mapsto> env)\<rparr>)
          = Inr b"
    by (simp add: loadBufferFromFile_def readFileSync_def dec)
  ultimately show ?thesis by blast
qed

subsection \<open>Calls of members\<close>

lemma call_member_resolves:
  "call_member ''toString'' this w = (Inr (), this, w) \<and>
   call_member ''saveBufferToFile'' this w = (Inr (), this, w) \<and>
   fst (call_member ''randomKey'' this w) = Inl (TypeError ''randomKey is not a function'') \<and>
   call_member ''key'' TopSecret_new w = (Inl (TypeError ''Cannot read properties of null''), TopSecret_new, w)"
  by (simp add: call_member_def get_property_def instance_properties_def
      TopSecret_prototype_def Object_prototype_def split_beta get_key_def TopSecret_new_def)

subsection \<open>The sample platform\<close>

lemma map2_add_sub:
  "length x = length k \<Longrightarrow> map2 (-) (map2 (+) x k) k = (x :: buffer)"
  by (induction x k rule: list_induct2) simp_all

lemma aes_ok_sample: "aes_ok sample_node"
  by (simp add: aes_ok_def sample_node_def map2_add_sub)

lemma sample_bad_padding:
  "\<not> pkcs7_valid (cbc_plaintext sample_node (replicate 32 7) (replicate 32 0))"
  by (simp add: pkcs7_valid_def cbc_plaintext_def sample_node_def blocks_of_nonempty
      xor_block_def Let_def)

lemma sha256_ok_sample: "sha256_ok sample_node"
  by (simp add: sha256_ok_def sample_node_def)

lemma ucast_byte_unit: "ucast (ucast (x :: byte) :: 16 word) = x"
  by (rule ucast_up_ucast_id) (simp add: is_up)

lemma base64_ok_sample: "base64_ok sample_node"
  by (simp add: base64_ok_def sample_node_def comp_def ucast_byte_unit)

lemma json_serializable_sample: "json_serializable sample_node [123, 125]"
  by (simp add: json_serializable_def sample_node_def)

lemma sample_key: "ts_key sample_instance = Some (replicate 32 7)"
  by (simp add: sample_instance_def)

lemma sample_envelope:
  "fst (encryptBuffer sample_node [104, 105, 33] sample_instance sample_world) =
     Inr [0, 1, 2, 3, 4, 5, 6, 7, 8, 9, 10, 11, 12, 13, 14, 15,
          111, 111, 42, 21, 16, 15, 18, 17, 12, 11, 14, 13, 8, 7, 10, 9]"
  by code_simp

lemma sample_envelope_next:
  "fst (encryptBuffer sample_node [104, 105, 33] sample_instance
          (snd (encryptBuffer sample_node [104, 105, 33] sample_instance sample_world))) =
     Inr [16, 17, 18, 19, 20, 21, 22, 23, 24, 25, 26, 27, 28, 29, 30, 31,
          127, 127, 58, 37, 32, 31, 34, 33, 28, 27, 30, 29, 24, 23, 26, 25]"
  by code_simp

lemma sample_envelope_20:
  "fst (encryptBuffer sample_node (replicate 20 0) sample_instance sample_world) =
     Inr [0, 1, 2, 3, 4, 5, 6, 7, 8, 9, 10, 11, 12, 13, 14, 15,
          7, 8, 9, 10, 11, 12, 13, 14, 15, 16, 17, 18, 19, 20, 21, 22,
          14, 15, 16, 17, 14, 7, 8, 9, 10, 35, 36, 37, 38, 31, 32, 33]"
  by code_simp

lemma sample_json_text:
  "fst (encryptJSON sample_node [123, 125] sample_instance sample_world) =
     Inr [0, 1, 2, 3, 4, 5, 6, 7, 8, 9, 10, 11, 12, 13, 14, 15,
          130, 131, 19, 20, 17, 18, 15, 16, 13, 14, 11, 12, 9, 10, 7, 8]"
  by code_simp

lemma sample_short: "decryptBuffer sample_node [1, 2, 3] sample_instance
     = Inl (CryptoError ''Invalid initialization vector'')"
  by code_simp

lemma sample_misaligned: "decryptBuffer sample_node (replicate 20 0) sample_instance
     = Inl (CryptoError ''wrong final block length'')"
  by code_simp

lemma sample_bad_decrypt: "decryptBuffer sample_node (replicate 32 0) sample_instance
     = Inl (CryptoError ''bad decrypt'')"
  by code_simp

lemma repeating_envelope:
  "fst (encryptBuffer sample_node [104, 105, 33] sample_instance repeating_world) =
     Inr [0, 1, 2, 3, 4, 5, 6, 7, 8, 9, 10, 11, 12, 13, 14, 15,
          111, 111, 42, 21, 16, 15, 18, 17, 12, 11, 14, 13, 8, 7, 10, 9]"
  by code_simp

lemma repeating_envelope_next:
  "fst (encryptBuffer sample_node [104, 105, 33] sample_instance
          (snd (encryptBuffer sample_node [104, 105, 33] sample_instance repeating_world))) =
     Inr [0, 1, 2, 3, 4, 5, 6, 7, 8, 9, 10, 11, 12, 13, 14, 15,
          111, 111, 42, 21, 16, 15, 18, 17, 12, 11, 14, 13, 8, 7, 10, 9]"
  by code_simp

section \<open>The claims\<close>

text \<open>
  C1. For every byte sequence \<open>b\<close> and every 32-byte key set on the instance,
  \<open>encryptBuffer\<close> returns an envelope and \<open>decryptBuffer\<close> on the same instance
  returns exactly \<open>b\<close> from it. AES-256 enters as the assumption \<open>aes_ok\<close>.
\<close>

theorem encrypt_decrypt_roundtrip:
  assumes "aes_ok lib" and "ts_key this = Some k" and "length k = 32"
  shows "\<exists>env w'. encryptBuffer lib b this w = (Inr env, w') \<and>
                   decryptBuffer lib env this = Inr b"
  using decrypt_envelope [OF assms, of "fst (randomBytes 16 w)" b]
  by (simp add: encryptBuffer_key [OF assms(2,3)])

theorem encrypt_decrypt_roundtrip_witness:
  "aes_ok sample_node \<and>
   ts_key sample_instance = Some (replicate 32 7) \<and>
   fst (encryptBuffer sample_node [104, 105, 33] sample_instance sample_world) =
     Inr [0, 1, 2, 3, 4, 5, 6, 7, 8, 9, 10, 11, 12, 13, 14, 15,
          111, 111, 42, 21, 16, 15, 18, 17, 12, 11, 14, 13, 8, 7, 10, 9] \<and>
   decryptBuffer sample_node
     [0, 1, 2, 3, 4, 5, 6, 7, 8, 9, 10, 11, 12, 13, 14, 15,
      111, 111, 42, 21, 16, 15, 18, 17, 12, 11, 14, 13, 8, 7, 10, 9] sample_instance
     = Inr [104, 105, 33]"
proof -
  obtain env w' where
      enc: "encryptBuffer sample_node [104, 105, 33] sample_instance sample_world = (Inr env, w')"
      and dec: "decryptBuffer sample_node env sample_instance = Inr [104, 105, 33]"
    using encrypt_decrypt_roundtrip [OF aes_ok_sample sample_key, of "[104, 105, 33]" sample_world]
    by auto
  from enc sample_envelope have "env = [0, 1, 2, 3, 4, 5, 6, 7, 8, 9, 10, 11, 12, 13, 14, 15,
          111, 111, 42, 21, 16, 15, 18, 17, 12, 11, 14, 13, 8, 7, 10, 9]"
    by simp
  with dec sample_envelope aes_ok_sample sample_key show ?thesis
    by simp
qed

text \<open>
  C2. The key setter on a string \<open>h\<close>: when \<open>h\<close> has 64 code units the length test
  passes and \<^verbatim>\<open>value.from("hex")\<close> throws a \<open>TypeError\<close>, so no key is set, whether
  \<open>h\<close> is hexadecimal or not; on any other length it throws
  \<^verbatim>\<open>Error("Key must be 64 bytes long.")\<close>. The claim's first half (the key becomes the
  32 decoded bytes) fails on the code; the second half holds.
\<close>

theorem set_key_throws:
  "set_key (JString h) this =
     (if length h = 64 then Inl (TypeError ''value.from is not a function'')
      else Inl (Error ''Key must be 64 bytes long.'')) \<and>
   set_key (JString (replicate 64 48)) TopSecret_new
     = Inl (TypeError ''value.from is not a function'') \<and>
   set_key (JString (fst (randomKey TopSecret_new w))) (fst (snd (randomKey TopSecret_new w)))
     = Inl (TypeError ''value.from is not a function'') \<and>
   \<not> is_ValidationError (TypeError ''value.from is not a function'')"
  by (simp add: set_key_def randomKey_hex)

text \<open>
  C3. The key getter on a fresh instance reads \<^verbatim>\<open>toString\<close> off \<^verbatim>\<open>null\<close>: it
  throws a \<open>TypeError\<close>, not the \<^verbatim>\<open>Error("Key is not set.")\<close> that the encrypting and
  decrypting operations throw. With a 32-byte key set it returns 64 hexadecimal
  characters (lemma \<open>get_key_hex\<close>).
\<close>

theorem get_key_unset_throws:
  "get_key TopSecret_new = Inl (TypeError ''Cannot read properties of null'') \<and>
   \<not> is_PreconditionError (TypeError ''Cannot read properties of null'')"
  by (simp add: get_key_def TopSecret_new_def)

text \<open>
  C4. On a freshly constructed instance (no key set), each of \<open>encryptBuffer\<close>,
  \<open>decryptBuffer\<close>, \<open>encryptJSON\<close> and \<open>decryptJSON\<close> throws
  \<^verbatim>\<open>Error("Key is not set.")\<close>, the precondition error, whatever its input; the
  encrypting operations draw no random bytes before they throw.
\<close>

theorem no_key_precondition:
  "encryptBuffer lib b TopSecret_new w = (Inl (Error ''Key is not set.''), w) \<and>
   decryptBuffer lib env TopSecret_new = Inl (Error ''Key is not set.'') \<and>
   encryptJSON lib v TopSecret_new w = (Inl (Error ''Key is not set.''), w) \<and>
   decryptJSON lib t TopSecret_new = Inl (Error ''Key is not set.'') \<and>
   is_PreconditionError (Error ''Key is not set.'')"
  by (simp add: TopSecret_new_def encryptBuffer_def decryptBuffer_def encryptJSON_def
      decryptJSON_def)

text \<open>
  C5. With a 32-byte key set, \<open>encryptJSON\<close> on a JSON-serializable value \<open>v\<close> returns a
  text from which \<open>decryptJSON\<close> on the same instance returns \<open>v\<close>. A value is
  JSON-serializable when \<^verbatim>\<open>JSON.stringify\<close> gives a text that survives UTF-8 and that
  \<^verbatim>\<open>JSON.parse\<close> reads back as \<open>v\<close>; base64 decoding is assumed to undo base64
  encoding and AES-256 decryption to undo encryption.
\<close>

theorem json_roundtrip:
  assumes "aes_ok lib" and "base64_ok lib" and "ts_key this = Some k" and "length k = 32"
    and "json_serializable lib v"
  shows "\<exists>t w'. encryptJSON lib v this w = (Inr t, w') \<and> decryptJSON lib t this = Inr v"
proof -
  from assms(5) obtain s where s: "JSON_stringify lib v = Inr (Some s)"
      and utf8: "utf8_decode lib (utf8_encode lib s) = s" and parse: "JSON_parse lib s = Inr v"
    by (auto simp add: json_serializable_def split: sum.splits option.splits)
  define iv where "iv = fst (randomBytes 16 w)"
  define env where
    "env = iv @ concat (cbc_encrypt (aes256_encrypt lib k) iv
                          (blocks_of (pkcs7_pad (utf8_encode lib s))))"
  define w' where "w' = snd (randomBytes 16 w)"
  have enc: "encryptBuffer lib (utf8_encode lib s) this w = (Inr env, w')"
    unfolding env_def iv_def w'_def by (rule encryptBuffer_key [OF assms(3,4)])
  have dec: "decryptBuffer lib env this = Inr (utf8_encode lib s)"
    unfolding env_def by (rule decrypt_envelope [OF assms(1,3,4)]) (simp add: iv_def)
  have b64: "base64_decode lib (base64_encode lib env) = env"
    using assms(2) by (simp add: base64_ok_def)
  have "encryptJSON lib v this w = (Inr (base64_encode lib env), w')"
    by (simp add: encryptJSON_def assms(3) s enc)
  moreover have "decryptJSON lib (base64_encode lib env) this = Inr v"
    by (simp add: decryptJSON_def assms(3) b64 dec utf8 parse)
  ultimately show ?thesis by blast
qed

theorem json_roundtrip_witness:
  "aes_ok sample_node \<and> base64_ok sample_node \<and> json_serializable sample_node [123, 125] \<and>
   fst (encryptJSON sample_node [123, 125] sample_instance sample_world) =
     Inr [0, 1, 2, 3, 4, 5, 6, 7, 8, 9, 10, 11, 12, 13, 14, 15,
          130, 131, 19, 20, 17, 18, 15, 16, 13, 14, 11, 12, 9, 10, 7, 8] \<and>
   decryptJSON sample_node
     [0, 1, 2, 3, 4, 5, 6, 7, 8, 9, 10, 11, 12, 13, 14, 15,
      130, 131, 19, 20, 17, 18, 15, 16, 13, 14, 11, 12, 9, 10, 7, 8] sample_instance
     = Inr [123, 125]"
proof -
  obtain t w' where
      enc: "encryptJSON sample_node [123, 125] sample_instance sample_world = (Inr t, w')"
      and dec: "decryptJSON sample_node t sample_instance = Inr [123, 125]"
    using json_roundtrip [OF aes_ok_sample base64_ok_sample sample_key _
        json_serializable_sample, of sample_world]
    by auto
  from enc sample_json_text have "t = [0, 1, 2, 3, 4, 5, 6, 7, 8, 9, 10, 11, 12, 13, 14, 15,
          130, 131, 19, 20, 17, 18, 15, 16, 13, 14, 11, 12, 9, 10, 7, 8]"
    by simp
  with dec sample_json_text aes_ok_sample base64_ok_sample json_serializable_sample
  show ?thesis by simp
qed

text \<open>
  C6. The password setter on a non-empty string \<open>p\<close> stores \<open>p\<close> and sets the key to
  the SHA-256 digest of the UTF-8 bytes of \<open>p\<close>, 32 bytes when SHA-256 gives 32 bytes;
  so two instances given the same password hold the same key. On the empty string and
  on every value that is no string it throws
  \<^verbatim>\<open>Error("Password must be a non-empty string.")\<close>, the validation error.
\<close>

theorem set_password_derives_key:
  "(p \<noteq> [] \<and> sha256_ok lib \<longrightarrow>
      (\<exists>this'. set_password lib (JString p) this = Inr this' \<and>
         ts_key this' = Some (sha256 lib (utf8_encode lib p)) \<and>
         length (sha256 lib (utf8_encode lib p)) = 32 \<and>
         ts_password this' = Some p)) \<and>
   (set_password lib (JString p) this1 = Inr a \<and> set_password lib (JString p) this2 = Inr b
      \<longrightarrow> ts_key a = ts_key b) \<and>
   (v = JString [] \<or> (\<forall>s. v \<noteq> JString s) \<longrightarrow>
      (\<exists>e. set_password lib v this = Inl e \<and> is_ValidationError e))"
proof (intro conjI impI)
  assume "p \<noteq> [] \<and> sha256_ok lib"
  then show "\<exists>this'. set_password lib (JString p) this = Inr this' \<and>
         ts_key this' = Some (sha256 lib (utf8_encode lib p)) \<and>
         length (sha256 lib (utf8_encode lib p)) = 32 \<and>
         ts_password this' = Some p"
    by (simp add: set_password_def sha256_ok_def)
next
  assume "set_password lib (JString p) this1 = Inr a \<and> set_password lib (JString p) this2 = Inr b"
  then show "ts_key a = ts_key b"
    by (auto simp add: set_password_def split: if_splits)
next
  assume "v = JString [] \<or> (\<forall>s. v \<noteq> JString s)"
  then show "\<exists>e. set_password lib v this = Inl e \<and> is_ValidationError e"
    by (cases v) (auto simp add: set_password_def)
qed

theorem set_password_derives_key_witness:
  "sha256_ok sample_node \<and>
   (\<exists>this'. set_password sample_node (JString [112, 119]) TopSecret_new = Inr this' \<and>
      ts_key this' = Some (replicate 32 2) \<and> ts_password this' = Some [112, 119]) \<and>
   (\<exists>e. set_password sample_node (JString []) TopSecret_new = Inl e \<and> is_ValidationError e) \<and>
   (\<exists>e. set_password sample_node (JNumber 5) TopSecret_new = Inl e \<and> is_ValidationError e)"
proof -
  have a: "\<exists>this'. set_password sample_node (JString [112, 119]) TopSecret_new = Inr this' \<and>
      ts_key this' = Some (replicate 32 2) \<and> ts_password this' = Some [112, 119]"
    using set_password_derives_key [where lib = sample_node and p = "[112, 119]"
        and this = TopSecret_new] sha256_ok_sample
    by (simp add: sample_node_def)
  have b: "\<exists>e. set_password sample_node (JString []) TopSecret_new = Inl e \<and> is_ValidationError e"
    using set_password_derives_key [where lib = sample_node and v = "JString []"
        and this = TopSecret_new]
    by simp
  have c: "\<exists>e. set_password sample_node (JNumber 5) TopSecret_new = Inl e \<and> is_ValidationError e"
    using set_password_derives_key [where lib = sample_node and v = "JNumber 5"
        and this = TopSecret_new]
    by simp
  from a b c sha256_ok_sample show ?thesis by blast
qed

text \<open>
  C7. As stated the claim fails: the two envelopes are equal when the generator hands
  out the same 16 bytes twice (shown below on a generator of period 16). What holds for every generator: two calls of \<open>encryptBuffer\<close> on the same
  plaintext, one after the other, each draw the next 16 bytes of the random generator
  as IV and return them as the first 16 bytes of the envelope; the two envelopes differ
  exactly when the two IVs differ; and both decrypt to the original plaintext.
\<close>

theorem consecutive_envelopes:
  assumes "aes_ok lib" and "ts_key this = Some k" and "length k = 32"
  shows "\<exists>e1 w1 e2 w2.
           encryptBuffer lib b this w = (Inr e1, w1) \<and>
           encryptBuffer lib b this w1 = (Inr e2, w2) \<and>
           take 16 e1 = map (rng w) [rng_pos w ..< rng_pos w + 16] \<and>
           take 16 e2 = map (rng w) [rng_pos w + 16 ..< rng_pos w + 32] \<and>
           (e1 \<noteq> e2) = (take 16 e1 \<noteq> take 16 e2) \<and>
           decryptBuffer lib e1 this = Inr b \<and> decryptBuffer lib e2 this = Inr b"
proof -
  let ?E = "aes256_encrypt lib k"
  let ?w1 = "snd (randomBytes 16 w)"
  let ?iv1 = "fst (randomBytes 16 w)" and ?iv2 = "fst (randomBytes 16 ?w1)"
  let ?e1 = "?iv1 @ concat (cbc_encrypt ?E ?iv1 (blocks_of (pkcs7_pad b)))"
  let ?e2 = "?iv2 @ concat (cbc_encrypt ?E ?iv2 (blocks_of (pkcs7_pad b)))"
  have iv1: "?iv1 = map (rng w) [rng_pos w ..< rng_pos w + 16]"
    by (simp add: randomBytes_def)
  have iv2: "?iv2 = map (rng w) [rng_pos w + 16 ..< rng_pos w + 32]"
    using randomBytes_next [of 16 16 w] by (simp add: add.commute)
  have c1: "encryptBuffer lib b this w = (Inr ?e1, ?w1)"
    by (rule encryptBuffer_key [OF assms(2,3)])
  have c2: "encryptBuffer lib b this ?w1 = (Inr ?e2, snd (randomBytes 16 ?w1))"
    by (rule encryptBuffer_key [OF assms(2,3)])
  have t1: "take 16 ?e1 = ?iv1" and t2: "take 16 ?e2 = ?iv2"
    by simp_all
  have same: "?e1 = ?e2" if "?iv1 = ?iv2"
    using that by (simp only:)
  have differ: "?e1 \<noteq> ?e2" if "?iv1 \<noteq> ?iv2"
  proof
    assume "?e1 = ?e2"
    then have "take 16 ?e1 = take 16 ?e2" by (rule arg_cong)
    with that show False by (simp only: t1 t2)
  qed
  have eq: "(?e1 \<noteq> ?e2) = (take 16 ?e1 \<noteq> take 16 ?e2)"
    unfolding t1 t2 using same differ by blast
  have d1: "decryptBuffer lib ?e1 this = Inr b"
    by (rule decrypt_envelope [OF assms(1-3)]) simp
  have d2: "decryptBuffer lib ?e2 this = Inr b"
    by (rule decrypt_envelope [OF assms(1-3)]) simp
  from c1 c2 t1 t2 eq d1 d2 show ?thesis
    unfolding iv1 [symmetric] iv2 [symmetric] by blast
qed

theorem consecutive_envelopes_witness:
  "aes_ok sample_node \<and>
   ts_key sample_instance = Some (replicate 32 7) \<and>
   fst (encryptBuffer sample_node [104, 105, 33] sample_instance sample_world) =
     Inr [0, 1, 2, 3, 4, 5, 6, 7, 8, 9, 10, 11, 12, 13, 14, 15,
          111, 111, 42, 21, 16, 15, 18, 17, 12, 11, 14, 13, 8, 7, 10, 9] \<and>
   fst (encryptBuffer sample_node [104, 105, 33] sample_instance
          (snd (encryptBuffer sample_node [104, 105, 33] sample_instance sample_world))) =
     Inr [16, 17, 18, 19, 20, 21, 22, 23, 24, 25, 26, 27, 28, 29, 30, 31,
          127, 127, 58, 37, 32, 31, 34, 33, 28, 27, 30, 29, 24, 23, 26, 25] \<and>
   decryptBuffer sample_node
     [0, 1, 2, 3, 4, 5, 6, 7, 8, 9, 10, 11, 12, 13, 14, 15,
      111, 111, 42, 21, 16, 15, 18, 17, 12, 11, 14, 13, 8, 7, 10, 9] sample_instance
     = Inr [104, 105, 33] \<and>
   decryptBuffer sample_node
     [16, 17, 18, 19, 20, 21, 22, 23, 24, 25, 26, 27, 28, 29, 30, 31,
      127, 127, 58, 37, 32, 31, 34, 33, 28, 27, 30, 29, 24, 23, 26, 25] sample_instance
     = Inr [104, 105, 33]"
proof -
  let ?E1 = "[0, 1, 2, 3, 4, 5, 6, 7, 8, 9, 10, 11, 12, 13, 14, 15,
      111, 111, 42, 21, 16, 15, 18, 17, 12, 11, 14, 13, 8, 7, 10, 9] :: buffer"
  let ?E2 = "[16, 17, 18, 19, 20, 21, 22, 23, 24, 25, 26, 27, 28, 29, 30, 31,
      127, 127, 58, 37, 32, 31, 34, 33, 28, 27, 30, 29, 24, 23, 26, 25] :: buffer"
  obtain e1 w1 e2 w2 where
      c1: "encryptBuffer sample_node [104, 105, 33] sample_instance sample_world = (Inr e1, w1)"
      and c2: "encryptBuffer sample_node [104, 105, 33] sample_instance w1 = (Inr e2, w2)"
      and d1: "decryptBuffer sample_node e1 sample_instance = Inr [104, 105, 33]"
      and d2: "decryptBuffer sample_node e2 sample_instance = Inr [104, 105, 33]"
    using consecutive_envelopes [OF aes_ok_sample sample_key, of "[104, 105, 33]" sample_world]
    by auto
  from c1 have w1: "w1 = snd (encryptBuffer sample_node [104, 105, 33] sample_instance sample_world)"
    by simp
  from c1 have "Inr e1 = fst (encryptBuffer sample_node [104, 105, 33] sample_instance
      sample_world)"
    by simp
  then have e1: "e1 = ?E1"
    by (simp only: sample_envelope sum.inject)
  from c2 have "Inr e2 = fst (encryptBuffer sample_node [104, 105, 33] sample_instance
      (snd (encryptBuffer sample_node [104, 105, 33] sample_instance sample_world)))"
    unfolding w1 by simp
  then have e2: "e2 = ?E2"
    by (simp only: sample_envelope_next sum.inject)
  note r1 = d1 [unfolded e1] and r2 = d2 [unfolded e2]
  show ?thesis
    by (intro conjI aes_ok_sample sample_key sample_envelope sample_envelope_next r1 r2)
qed

theorem repeated_iv_counterexample:
  "fst (encryptBuffer sample_node [104, 105, 33] sample_instance repeating_world) =
     fst (encryptBuffer sample_node [104, 105, 33] sample_instance
            (snd (encryptBuffer sample_node [104, 105, 33] sample_instance repeating_world))) \<and>
   fst (encryptBuffer sample_node [104, 105, 33] sample_instance repeating_world) =
     Inr [0, 1, 2, 3, 4, 5, 6, 7, 8, 9, 10, 11, 12, 13, 14, 15,
          111, 111, 42, 21, 16, 15, 18, 17, 12, 11, 14, 13, 8, 7, 10, 9] \<and>
   \<not> (\<exists>e1 w1 e2 w2.
        encryptBuffer sample_node [104, 105, 33] sample_instance repeating_world = (Inr e1, w1) \<and>
        encryptBuffer sample_node [104, 105, 33] sample_instance w1 = (Inr e2, w2) \<and>
        e1 \<noteq> e2)"
proof (intro conjI notI)
  show "fst (encryptBuffer sample_node [104, 105, 33] sample_instance repeating_world) =
     fst (encryptBuffer sample_node [104, 105, 33] sample_instance
            (snd (encryptBuffer sample_node [104, 105, 33] sample_instance repeating_world)))"
    by (simp only: repeating_envelope repeating_envelope_next)
next
  show "fst (encryptBuffer sample_node [104, 105, 33] sample_instance repeating_world) =
     Inr [0, 1, 2, 3, 4, 5, 6, 7, 8, 9, 10, 11, 12, 13, 14, 15,
          111, 111, 42, 21, 16, 15, 18, 17, 12, 11, 14, 13, 8, 7, 10, 9]"
    by (rule repeating_envelope)
next
  assume "\<exists>e1 w1 e2 w2.
        encryptBuffer sample_node [104, 105, 33] sample_instance repeating_world = (Inr e1, w1) \<and>
        encryptBuffer sample_node [104, 105, 33] sample_instance w1 = (Inr e2, w2) \<and>
        e1 \<noteq> e2"
  then obtain e1 w1 e2 w2 where
      c1: "encryptBuffer sample_node [104, 105, 33] sample_instance repeating_world = (Inr e1, w1)"
      and c2: "encryptBuffer sample_node [104, 105, 33] sample_instance w1 = (Inr e2, w2)"
      and ne: "e1 \<noteq> e2"
    by (elim exE conjE)
  from c1 have w1: "w1 = snd (encryptBuffer sample_node [104, 105, 33] sample_instance
      repeating_world)"
    by simp
  from c1 have a: "Inr e1 = fst (encryptBuffer sample_node [104, 105, 33] sample_instance
      repeating_world)"
    by simp
  from c2 have b: "Inr e2 = fst (encryptBuffer sample_node [104, 105, 33] sample_instance
      (snd (encryptBuffer sample_node [104, 105, 33] sample_instance repeating_world)))"
    unfolding w1 by simp
  have "(Inr e1 :: error + buffer) = Inr e2"
    by (simp only: a b repeating_envelope repeating_envelope_next)
  then have "e1 = e2" by (simp only: sum.inject)
  with ne show False by (rule notE)
qed

text \<open>
  C8. With a 32-byte key set, \<open>decryptBuffer\<close> throws an error of the crypto module (the
  decryption error) on every envelope that is shorter than 16 bytes, or whose ciphertext
  part (what follows the first 16 bytes) is no multiple of 16 bytes long, or whose CBC
  decryption \<open>cbc_plaintext\<close> does not end in a valid PKCS#7 padding.
\<close>

theorem decrypt_malformed:
  assumes "aes_ok lib" and "ts_key this = Some k" and "length k = 32"
    and "length env < 16 \<or> \<not> 16 dvd length (drop 16 env)
           \<or> \<not> pkcs7_valid (cbc_plaintext lib k env)"
  shows "\<exists>e. decryptBuffer lib env this = Inl e \<and> is_DecryptionError e"
proof -
  consider (short) "length env < 16"
    | (misaligned) "16 \<le> length env" "\<not> 16 dvd (length env - 16)"
    | (empty) "length env = 16"
    | (padding) "16 < length env" "16 dvd (length env - 16)"
        "\<not> pkcs7_valid (cbc_plaintext lib k env)"
    using assms(4) by (cases "length env < 16"; cases "length env = 16") auto
  then show ?thesis
  proof cases
    case short
    then show ?thesis
      by (simp add: decryptBuffer_short [OF assms(2)])
  next
    case misaligned
    then show ?thesis
      by (simp add: decryptBuffer_misaligned [OF assms(2,3)])
  next
    case empty
    then show ?thesis
      by (simp add: decryptBuffer_no_ciphertext [OF assms(2,3)])
  next
    case padding
    then show ?thesis
      by (simp add: decryptBuffer_aligned [OF assms(1-3)])
  qed
qed

theorem decrypt_malformed_witness:
  "aes_ok sample_node \<and>
   decryptBuffer sample_node [1, 2, 3] sample_instance
     = Inl (CryptoError ''Invalid initialization vector'') \<and>
   decryptBuffer sample_node (replicate 20 0) sample_instance
     = Inl (CryptoError ''wrong final block length'') \<and>
   \<not> pkcs7_valid (cbc_plaintext sample_node (replicate 32 7) (replicate 32 0)) \<and>
   decryptBuffer sample_node (replicate 32 0) sample_instance
     = Inl (CryptoError ''bad decrypt'') \<and>
   (\<exists>e. decryptBuffer sample_node [1, 2, 3] sample_instance = Inl e \<and> is_DecryptionError e) \<and>
   (\<exists>e. decryptBuffer sample_node (replicate 20 0) sample_instance = Inl e \<and>
        is_DecryptionError e) \<and>
   (\<exists>e. decryptBuffer sample_node (replicate 32 0) sample_instance = Inl e \<and>
        is_DecryptionError e)"
proof -
  have a: "\<exists>e. decryptBuffer sample_node [1, 2, 3] sample_instance = Inl e \<and> is_DecryptionError e"
    by (rule decrypt_malformed [OF aes_ok_sample sample_key]) simp_all
  have b: "\<exists>e. decryptBuffer sample_node (replicate 20 0) sample_instance = Inl e \<and>
        is_DecryptionError e"
    by (rule decrypt_malformed [OF aes_ok_sample sample_key]) simp_all
  have c: "\<exists>e. decryptBuffer sample_node (replicate 32 0) sample_instance = Inl e \<and>
        is_DecryptionError e"
    by (rule decrypt_malformed [OF aes_ok_sample sample_key]) (simp_all add: sample_bad_padding)
  from a b c sample_bad_padding sample_short sample_misaligned sample_bad_decrypt aes_ok_sample
  show ?thesis by blast
qed

text \<open>
  C9. The class declares no member \<^verbatim>\<open>encryptFile\<close> and no member \<^verbatim>\<open>decryptFile\<close>,
  and neither name is a property of the instance or of \<^verbatim>\<open>Object.prototype\<close>: a call
  of either on an instance, as the repository's test makes, throws a \<open>TypeError\<close> and
  changes nothing, so no file is written. What the class has are \<open>saveBufferToFile\<close>
  (a buffer to an encrypted file) and \<open>loadBufferFromFile\<close> (an encrypted file to a
  buffer), which do undo each other (lemma \<open>save_load_roundtrip\<close>).
\<close>

theorem encryptFile_not_a_member:
  "call_member ''encryptFile'' this w
     = (Inl (TypeError ''encryptFile is not a function''), this, w) \<and>
   call_member ''decryptFile'' this w
     = (Inl (TypeError ''decryptFile is not a function''), this, w)"
  by (simp add: call_member_def get_property_def instance_properties_def
      TopSecret_prototype_def Object_prototype_def)

text \<open>
  C10. With a 32-byte key set, \<open>encryptBuffer\<close> on a plaintext of \<open>n\<close> bytes returns
  an envelope of exactly \<open>16 + 16 * (n div 16 + 1)\<close> bytes; so every envelope has at least
  32 bytes and a length that is a multiple of 16.
\<close>

theorem envelope_length:
  assumes "aes_ok lib" and "ts_key this = Some k" and "length k = 32"
  shows "\<exists>env w'. encryptBuffer lib b this w = (Inr env, w') \<and>
           length env = 16 + 16 * (length b div 16 + 1) \<and>
           32 \<le> length env \<and> 16 dvd length env"
proof -
  let ?iv = "fst (randomBytes 16 w)"
  let ?env = "?iv @ concat (cbc_encrypt (aes256_encrypt lib k) ?iv (blocks_of (pkcs7_pad b)))"
  have len: "length ?env = 16 + 16 * (length b div 16 + 1)"
    by (rule length_envelope [OF assms(1,3)]) simp
  have "encryptBuffer lib b this w = (Inr ?env, snd (randomBytes 16 w))"
    by (rule encryptBuffer_key [OF assms(2,3)])
  moreover have "32 \<le> length ?env" "16 dvd length ?env"
    unfolding len by simp_all
  ultimately show ?thesis
    using len by blast
qed

theorem envelope_length_witness:
  "aes_ok sample_node \<and>
   ts_key sample_instance = Some (replicate 32 7) \<and>
   (\<exists>env w'. encryptBuffer sample_node (replicate 20 0) sample_instance sample_world
                = (Inr env, w') \<and>
      env = [0, 1, 2, 3, 4, 5, 6, 7, 8, 9, 10, 11, 12, 13, 14, 15,
             7, 8, 9, 10, 11, 12, 13, 14, 15, 16, 17, 18, 19, 20, 21, 22,
             14, 15, 16, 17, 14, 7, 8, 9, 10, 35, 36, 37, 38, 31, 32, 33] \<and>
      length env = 48 \<and> 32 \<le> length env \<and> 16 dvd length env)"
proof -
  obtain env w' where
      enc: "encryptBuffer sample_node (replicate 20 0) sample_instance sample_world = (Inr env, w')"
      and len: "length env = 16 + 16 * (length (replicate 20 (0 :: byte)) div 16 + 1)"
        "32 \<le> length env" "16 dvd length env"
    using envelope_length [OF aes_ok_sample sample_key, of "replicate 20 0" sample_world]
    by auto
  from enc sample_envelope_20 have "env = [0, 1, 2, 3, 4, 5, 6, 7, 8, 9, 10, 11, 12, 13, 14, 15,
             7, 8, 9, 10, 11, 12, 13, 14, 15, 16, 17, 18, 19, 20, 21, 22,
             14, 15, 16, 17, 14, 7, 8, 9, 10, 35, 36, 37, 38, 31, 32, 33]"
    by simp
  with enc len aes_ok_sample sample_key show ?thesis
    by simp
qed

end
